theory Spec2Isabelle
  imports Main
begin

section \<open>Values of the program\<close>

text \<open>
  The module \<^verbatim>\<open>etcd3/aio_client.py\<close> reads bytes from an HTTP response, splits them into
  JSON objects by counting braces, parses each object and turns it into a result or an
  exception. A Python \<^verbatim>\<open>bytes\<close> object is a list of 8-bit characters. A Python
  \<^verbatim>\<open>str\<close> is represented by its UTF-8 encoding, so that
  \<^verbatim>\<open>str(data, encoding='utf-8')\<close> is a validity check that returns its argument.
\<close>

type_synonym bytes = "char list"

text \<open>
  What \<^verbatim>\<open>json.loads\<close> returns. \<open>JNull\<close> is Python's \<^verbatim>\<open>None\<close>; a dict is an association
  list in insertion order with distinct keys; a float is kept as the literal that Python
  hands to \<^verbatim>\<open>float()\<close>.
\<close>

datatype json =
    JNull
  | JBool bool
  | JInt int
  | JFloat string
  | JStr string
  | JArr "json list"
  | JObj "(string \<times> json) list"

text \<open>
  The part of \<^verbatim>\<open>aiohttp.ClientResponse\<close> the module uses: the status, the bytes of the
  body that have not been read yet (\<^verbatim>\<open>resp.content\<close>), and what \<^verbatim>\<open>close()\<close> changes:
  whether the response still holds its connection, the closed flag, and a count of the
  connections it has closed.
\<close>

record ClientResponse =
  status :: int
  content :: bytes
  connection :: bool
  closed :: bool
  releases :: nat

text \<open>
  The first argument of \<^verbatim>\<open>Etcd3APIError\<close> is a value taken from a JSON document or, in
  \<^verbatim>\<open>_raise_for_status\<close>, the stream reader object \<^verbatim>\<open>resp.content\<close>.
\<close>

datatype pyarg = PyJson json | PyStreamReader

text \<open>
  Exceptions, each with the arguments it is raised with. The classes of
  \<^verbatim>\<open>etcd3/errors.py\<close> are constructed here and nowhere inspected, so an exception is
  the class and the arguments of the \<^verbatim>\<open>raise\<close>.
\<close>

datatype exc =
    Etcd3Exception string
  | Etcd3APIError pyarg json json "ClientResponse option"
  | Etcd3StreamError string bytes ClientResponse
  | StopAsyncIteration
  | UnicodeDecodeError
  | JSONDecodeError
  | RecursionError
  | AttributeError
  | ClientConnectionError
  | OtherError string

section \<open>Decoding UTF-8 and parsing JSON\<close>

text \<open>
  \<^verbatim>\<open>str(data, encoding='utf-8')\<close>: the strict UTF-8 decoder accepts exactly the
  well-formed byte sequences (no overlong forms, no surrogates, nothing above U+10FFFF).
\<close>

definition cont_byte :: "nat \<Rightarrow> bool" where
  "cont_byte b = (128 \<le> b \<and> b < 192)"

fun utf8_ok :: "nat list \<Rightarrow> bool" where
  "utf8_ok [] = True"
| "utf8_ok (b # bs) =
     (if b < 128 then utf8_ok bs
      else if 194 \<le> b \<and> b < 224 then
        (case bs of c1 # r \<Rightarrow> cont_byte c1 \<and> utf8_ok r | _ \<Rightarrow> False)
      else if 224 \<le> b \<and> b < 240 then
        (case bs of c1 # c2 # r \<Rightarrow>
            (if b = 224 then 160 \<le> c1 \<and> c1 < 192
             else if b = 237 then 128 \<le> c1 \<and> c1 < 160
             else cont_byte c1) \<and> cont_byte c2 \<and> utf8_ok r
         | _ \<Rightarrow> False)
      else if 240 \<le> b \<and> b < 245 then
        (case bs of c1 # c2 # c3 # r \<Rightarrow>
            (if b = 240 then 144 \<le> c1 \<and> c1 < 192
             else if b = 244 then 128 \<le> c1 \<and> c1 < 144
             else cont_byte c1) \<and> cont_byte c2 \<and> cont_byte c3 \<and> utf8_ok r
         | _ \<Rightarrow> False)
      else False)"

definition str_utf8 :: "bytes \<Rightarrow> exc + string" where
  "str_utf8 data = (if utf8_ok (map of_char data) then Inr data else Inl UnicodeDecodeError)"

text \<open>The code point of a \<^verbatim>\<open>\uXXXX\<close> escape, as UTF-8 (three bytes for a lone surrogate).\<close>

definition utf8_encode :: "nat \<Rightarrow> string" where
  "utf8_encode u =
     (if u < 128 then [char_of u]
      else if u < 2048 then [char_of (192 + u div 64), char_of (128 + u mod 64)]
      else if u < 65536 then
        [char_of (224 + u div 4096), char_of (128 + (u div 64) mod 64), char_of (128 + u mod 64)]
      else
        [char_of (240 + u div 262144), char_of (128 + (u div 4096) mod 64),
         char_of (128 + (u div 64) mod 64), char_of (128 + u mod 64)])"

definition is_ws :: "char \<Rightarrow> bool" where
  "is_ws c = (c = CHR '' '' \<or> c = CHR 0x09 \<or> c = CHR 0x0A \<or> c = CHR 0x0D)"

definition skip_ws :: "string \<Rightarrow> string" where
  "skip_ws s = dropWhile is_ws s"

definition is_digit :: "char \<Rightarrow> bool" where
  "is_digit c = (48 \<le> (of_char c :: nat) \<and> (of_char c :: nat) \<le> 57)"

definition digits_value :: "string \<Rightarrow> int" where
  "digits_value ds = foldl (\<lambda>a c. 10 * a + (of_char c - 48)) 0 ds"

definition hex_value :: "char \<Rightarrow> nat option" where
  "hex_value c =
     (let n = (of_char c :: nat) in
      if 48 \<le> n \<and> n \<le> 57 then Some (n - 48)
      else if 65 \<le> n \<and> n \<le> 70 then Some (n - 55)
      else if 97 \<le> n \<and> n \<le> 102 then Some (n - 87)
      else None)"

definition decode_uXXXX :: "string \<Rightarrow> nat option" where
  "decode_uXXXX s =
     (case map hex_value (take 4 s) of
        [Some a, Some b, Some c, Some d] \<Rightarrow> Some (((a * 16 + b) * 16 + c) * 16 + d)
      | _ \<Rightarrow> None)"

definition backslash :: "char \<Rightarrow> char option" where
  "backslash e =
     (if e = CHR 0x22 then Some (CHR 0x22)
      else if e = CHR 0x5C then Some (CHR 0x5C)
      else if e = CHR ''/'' then Some (CHR ''/'')
      else if e = CHR ''b'' then Some (CHR 0x08)
      else if e = CHR ''f'' then Some (CHR 0x0C)
      else if e = CHR ''n'' then Some (CHR 0x0A)
      else if e = CHR ''r'' then Some (CHR 0x0D)
      else if e = CHR ''t'' then Some (CHR 0x09)
      else None)"

text \<open>
  \<^verbatim>\<open>json.decoder.scanstring\<close> in strict mode, started after the opening quote: the
  decoded string and the input after the closing quote.
\<close>

function scanstring :: "string \<Rightarrow> string \<Rightarrow> exc + (string \<times> string)" where
  "scanstring [] acc = Inl JSONDecodeError"
| "scanstring (c # cs) acc =
     (if c = CHR 0x22 then Inr (acc, cs)
      else if c = CHR 0x5C then
        (case cs of
           [] \<Rightarrow> Inl JSONDecodeError
         | e # r \<Rightarrow>
             if e = CHR ''u'' then
               (case decode_uXXXX r of
                  None \<Rightarrow> Inl JSONDecodeError
                | Some u \<Rightarrow>
                    if 55296 \<le> u \<and> u < 56320 \<and> take 2 (drop 4 r) = [CHR 0x5C, CHR ''u''] then
                      (case decode_uXXXX (drop 6 r) of
                         None \<Rightarrow> Inl JSONDecodeError
                       | Some u2 \<Rightarrow>
                           if 56320 \<le> u2 \<and> u2 < 57344 then
                             scanstring (drop 10 r)
                               (acc @ utf8_encode (65536 + (u - 55296) * 1024 + (u2 - 56320)))
                           else scanstring (drop 4 r) (acc @ utf8_encode u))
                    else scanstring (drop 4 r) (acc @ utf8_encode u))
             else
               (case backslash e of
                  None \<Rightarrow> Inl JSONDecodeError
                | Some ch \<Rightarrow> scanstring r (acc @ [ch])))
      else if (of_char c :: nat) < 32 then Inl JSONDecodeError
      else scanstring cs (acc @ [c]))"
  by pat_completeness auto
termination
  by (relation "measure (\<lambda>(s, acc). length s)") auto

text \<open>
  The number pattern of \<^verbatim>\<open>json.scanner\<close>,
  \<^verbatim>\<open>(-?(?:0|[1-9]\d*))(\.\d+)?([eE][-+]?\d+)?\<close>, matched at the start of the input: an
  \<^verbatim>\<open>int\<close> when neither the fraction nor the exponent is there, a \<^verbatim>\<open>float\<close> otherwise.
\<close>

definition match_frac :: "string \<Rightarrow> string \<times> string" where
  "match_frac s =
     (case s of
        p # f # r \<Rightarrow>
          if p = CHR ''.'' \<and> is_digit f
          then (p # takeWhile is_digit (f # r), dropWhile is_digit (f # r))
          else ([], s)
      | _ \<Rightarrow> ([], s))"

definition match_exp :: "string \<Rightarrow> string \<times> string" where
  "match_exp s =
     (case s of
        [] \<Rightarrow> ([], s)
      | e # r \<Rightarrow>
          if e = CHR ''e'' \<or> e = CHR ''E'' then
            (let sg = (case r of
                         [] \<Rightarrow> []
                       | g # _ \<Rightarrow> if g = CHR ''-'' \<or> g = CHR ''+'' then [g] else []);
                 r1 = drop (length sg) r
             in if r1 \<noteq> [] \<and> is_digit (hd r1)
                then (e # sg @ takeWhile is_digit r1, dropWhile is_digit r1)
                else ([], s))
          else ([], s))"

definition match_number :: "string \<Rightarrow> (json \<times> string) option" where
  "match_number s =
     (let sg = (case s of [] \<Rightarrow> [] | g # _ \<Rightarrow> if g = CHR ''-'' then [g] else []);
          s1 = drop (length sg) s
      in case s1 of
           [] \<Rightarrow> None
         | d # _ \<Rightarrow>
             if \<not> is_digit d then None
             else
               (let ip = (if d = CHR ''0'' then [d] else takeWhile is_digit s1);
                    (frac, s3) = match_frac (drop (length ip) s1);
                    (ex, s4) = match_exp s3
                in if frac = [] \<and> ex = []
                   then Some (JInt (if sg = [] then digits_value ip else - digits_value ip), s4)
                   else Some (JFloat (sg @ ip @ frac @ ex), s4)))"

text \<open>
  \<^verbatim>\<open>d[key] = value\<close> on a dict: a key that is there keeps its place and takes the new
  value, a new key goes to the end. \<^verbatim>\<open>d.get(key)\<close> gives \<^verbatim>\<open>None\<close> for a key that is
  not there.
\<close>

fun dict_setitem :: "(string \<times> json) list \<Rightarrow> string \<Rightarrow> json \<Rightarrow> (string \<times> json) list" where
  "dict_setitem [] k v = [(k, v)]"
| "dict_setitem (p # ps) k v = (if fst p = k then (k, v) # ps else p # dict_setitem ps k v)"

definition dict_get :: "(string \<times> json) list \<Rightarrow> string \<Rightarrow> json" where
  "dict_get d k = (case map_of d k of None \<Rightarrow> JNull | Some v \<Rightarrow> v)"

definition dict_contains :: "(string \<times> json) list \<Rightarrow> string \<Rightarrow> bool" where
  "dict_contains d k = (map_of d k \<noteq> None)"

text \<open>
  The scanner of \<^verbatim>\<open>json.decoder\<close>: \<open>scan_once\<close> reads one value at the start of the
  input, \<open>JSONObject\<close> the members of an object from after the opening quote of a key,
  \<open>JSONArray\<close> the elements of an array from the start of an element. Each gives the
  value and the input after it. The first argument bounds the depth of the calls;
  \<open>json_loads\<close> starts with more than the input can use (\<open>json_loads_no_RecursionError\<close>
  below).
\<close>

fun scan_once :: "nat \<Rightarrow> string \<Rightarrow> exc + (json \<times> string)"
  and JSONObject :: "nat \<Rightarrow> string \<Rightarrow> (string \<times> json) list \<Rightarrow> exc + (json \<times> string)"
  and JSONArray :: "nat \<Rightarrow> string \<Rightarrow> json list \<Rightarrow> exc + (json \<times> string)"
where
  "scan_once 0 s = Inl RecursionError"
| "scan_once (Suc n) s =
     (case s of
        [] \<Rightarrow> Inl JSONDecodeError
      | c # r \<Rightarrow>
          if c = CHR 0x22 then
            (case scanstring r [] of
               Inl e \<Rightarrow> Inl e
             | Inr (str, rest) \<Rightarrow> Inr (JStr str, rest))
          else if c = CHR ''{'' then
            (case skip_ws r of
               [] \<Rightarrow> Inl JSONDecodeError
             | d # r' \<Rightarrow>
                 if d = CHR ''}'' then Inr (JObj [], r')
                 else if d = CHR 0x22 then JSONObject n r' []
                 else Inl JSONDecodeError)
          else if c = CHR ''['' then
            (case skip_ws r of
               [] \<Rightarrow> Inl JSONDecodeError
             | d # r' \<Rightarrow>
                 if d = CHR '']'' then Inr (JArr [], r')
                 else JSONArray n (d # r') [])
          else if take 4 s = ''null'' then Inr (JNull, drop 4 s)
          else if take 4 s = ''true'' then Inr (JBool True, drop 4 s)
          else if take 5 s = ''false'' then Inr (JBool False, drop 5 s)
          else
            (case match_number s of
               Some res \<Rightarrow> Inr res
             | None \<Rightarrow>
                 if take 3 s = ''NaN'' then Inr (JFloat ''NaN'', drop 3 s)
                 else if take 8 s = ''Infinity'' then Inr (JFloat ''Infinity'', drop 8 s)
                 else if take 9 s = ''-Infinity'' then Inr (JFloat ''-Infinity'', drop 9 s)
                 else Inl JSONDecodeError))"
| "JSONObject 0 s pairs = Inl RecursionError"
| "JSONObject (Suc n) s pairs =
     (case scanstring s [] of
        Inl e \<Rightarrow> Inl e
      | Inr (key, s1) \<Rightarrow>
          (case skip_ws s1 of
             [] \<Rightarrow> Inl JSONDecodeError
           | c # s2 \<Rightarrow>
               if c \<noteq> CHR '':'' then Inl JSONDecodeError
               else
                 (case scan_once n (skip_ws s2) of
                    Inl e \<Rightarrow> Inl e
                  | Inr (v, s3) \<Rightarrow>
                      (case skip_ws s3 of
                         [] \<Rightarrow> Inl JSONDecodeError
                       | d # s4 \<Rightarrow>
                           if d = CHR ''}'' then Inr (JObj (dict_setitem pairs key v), s4)
                           else if d \<noteq> CHR '','' then Inl JSONDecodeError
                           else
                             (case skip_ws s4 of
                                [] \<Rightarrow> Inl JSONDecodeError
                              | q # s5 \<Rightarrow>
                                  if q = CHR 0x22
                                  then JSONObject n s5 (dict_setitem pairs key v)
                                  else Inl JSONDecodeError)))))"
| "JSONArray 0 s vals = Inl RecursionError"
| "JSONArray (Suc n) s vals =
     (case scan_once n s of
        Inl e \<Rightarrow> Inl e
      | Inr (v, s1) \<Rightarrow>
          (case skip_ws s1 of
             [] \<Rightarrow> Inl JSONDecodeError
           | d # s2 \<Rightarrow>
               if d = CHR '']'' then Inr (JArr (vals @ [v]), s2)
               else if d \<noteq> CHR '','' then Inl JSONDecodeError
               else JSONArray n (skip_ws s2) (vals @ [v])))"

text \<open>
  \<^verbatim>\<open>json.loads(s)\<close>: leading whitespace, one value, trailing whitespace, and nothing
  else.
\<close>

definition json_loads :: "string \<Rightarrow> exc + json" where
  "json_loads s =
     (case scan_once (Suc (2 * length s)) (skip_ws s) of
        Inl e \<Rightarrow> Inl e
      | Inr (v, rest) \<Rightarrow> if skip_ws rest = [] then Inr v else Inl JSONDecodeError)"

text \<open>
  \<^verbatim>\<open>bool(x)\<close> for a value of a JSON document. A float is false when it is zero: the
  literal \<open>m \<times> 10\<^sup>e\<close> rounds to zero exactly when it is at most \<open>2\<^sup>-\<^sup>1\<^sup>0\<^sup>7\<^sup>5\<close>.
\<close>

definition exp_value :: "string \<Rightarrow> int" where
  "exp_value ex =
     (case drop 1 ex of
        [] \<Rightarrow> 0
      | g # r \<Rightarrow>
          if g = CHR ''-'' then - digits_value r
          else if g = CHR ''+'' then digits_value r
          else digits_value (g # r))"

definition float_nonzero :: "string \<Rightarrow> bool" where
  "float_nonzero l =
     (if l = ''NaN'' \<or> l = ''Infinity'' \<or> l = ''-Infinity'' then True
      else
        (let s1 = (case l of [] \<Rightarrow> l | g # r \<Rightarrow> if g = CHR ''-'' then r else l);
             (frac, s3) = match_frac (dropWhile is_digit s1);
             (ex, s4) = match_exp s3;
             m = digits_value (takeWhile is_digit s1 @ drop 1 frac);
             e = exp_value ex - int (length (drop 1 frac))
         in if 0 \<le> e then m \<noteq> 0 else 10 ^ nat (- e) < m * 2 ^ 1075))"

fun truthy :: "json \<Rightarrow> bool" where
  "truthy JNull = False"
| "truthy (JBool b) = b"
| "truthy (JInt i) = (i \<noteq> 0)"
| "truthy (JFloat l) = float_nonzero l"
| "truthy (JStr s) = (s \<noteq> [])"
| "truthy (JArr xs) = (xs \<noteq> [])"
| "truthy (JObj d) = (d \<noteq> [])"

section \<open>The HTTP response\<close>

text \<open>
  \<^verbatim>\<open>aiohttp.ClientResponse.close()\<close>: sets the closed flag and closes the connection when
  the response still holds one; afterwards the response holds none. It returns
  \<^verbatim>\<open>None\<close> and does not raise.
\<close>

definition resp_close :: "ClientResponse \<Rightarrow> ClientResponse" where
  "resp_close r =
     r\<lparr>connection := False, closed := True,
       releases := (if connection r then Suc (releases r) else releases r)\<rparr>"

text \<open>
  \<^verbatim>\<open>await resp.json()\<close>, for a response with content type \<^verbatim>\<open>application/json\<close> (what
  the gateway sends): the body is read to its end (a closed response cannot be read),
  stripped of ASCII whitespace, and an empty body gives \<^verbatim>\<open>None\<close>; otherwise it is
  decoded as UTF-8 and parsed by \<^verbatim>\<open>json.loads\<close>.
\<close>

definition is_space :: "char \<Rightarrow> bool" where
  "is_space c = (is_ws c \<or> c = CHR 0x0B \<or> c = CHR 0x0C)"

definition strip :: "bytes \<Rightarrow> bytes" where
  "strip b = rev (dropWhile is_space (rev (dropWhile is_space b)))"

definition resp_json :: "ClientResponse \<Rightarrow> exc + json" where
  "resp_json r =
     (if closed r then Inl ClientConnectionError
      else if strip (content r) = [] then Inr JNull
      else
        (case str_utf8 (strip (content r)) of
           Inl e \<Rightarrow> Inl e
         | Inr s \<Rightarrow> json_loads s))"

section \<open>ResponseIter: the bracket-counting tokenizer\<close>

text \<open>
  \<^verbatim>\<open>self.buf\<close> is a list of the one-byte reads, kept here as the bytes themselves, so
  that \<^verbatim>\<open>b''.join(self.buf)\<close> is the list.
\<close>

record ResponseIter =
  resp :: ClientResponse
  buf :: bytes
  bracket_flag :: int

definition ResponseIter_init :: "ClientResponse \<Rightarrow> ResponseIter" where
  "ResponseIter_init r = \<lparr>resp = r, buf = [], bracket_flag = 0\<rparr>"

text \<open>
  The loop of \<^verbatim>\<open>ResponseIter.next\<close>. The last argument is the unread body: each
  \<^verbatim>\<open>await self.resp.content.read(1)\<close> takes its first byte, or gets \<^verbatim>\<open>b''\<close> at its end;
  on a closed response the read raises. The result is the frame or the exception, and
  the iterator as the call leaves it.
\<close>

fun read_loop :: "ClientResponse \<Rightarrow> bytes \<Rightarrow> int \<Rightarrow> bytes \<Rightarrow> (exc + bytes) \<times> ResponseIter" where
  "read_loop r b flag [] =
     (let it = \<lparr>resp = r\<lparr>content := []\<rparr>, buf = b, bracket_flag = flag\<rparr>
      in if closed r then (Inl ClientConnectionError, it)
         else if b \<noteq> [] then (Inl (Etcd3StreamError ''Stream decode error'' b (resp it)), it)
         else (Inl StopAsyncIteration, it))"
| "read_loop r b flag (c # cs) =
     (if closed r
      then (Inl ClientConnectionError, \<lparr>resp = r\<lparr>content := c # cs\<rparr>, buf = b, bracket_flag = flag\<rparr>)
      else
        (let b' = b @ [c];
             flag' = (if c = CHR ''{'' then flag + 1
                      else if c = CHR ''}'' then flag - 1
                      else flag);
             r' = r\<lparr>content := cs\<rparr>
         in if flag' = 0 then (Inr b', \<lparr>resp = r', buf = [], bracket_flag = flag'\<rparr>)
            else if flag' < 0
            then (Inl (Etcd3StreamError ''Stream decode error'' b' r'),
                  \<lparr>resp = r', buf = b', bracket_flag = flag'\<rparr>)
            else read_loop r b' flag' cs))"

definition ResponseIter_next :: "ResponseIter \<Rightarrow> (exc + bytes) \<times> ResponseIter" where
  "ResponseIter_next it = read_loop (resp it) (buf it) (bracket_flag it) (content (resp it))"

section \<open>ModelizedStreamResponse: the stream handle\<close>

text \<open>
  \<^verbatim>\<open>self.resp\<close> and \<^verbatim>\<open>self.resp_iter.resp\<close> are one object; the record keeps it once, in
  the iterator.
  The field \<open>rpc_method\<close> is \<^verbatim>\<open>self.method\<close>.
\<close>

record ModelizedStreamResponse =
  decode :: bool
  rpc_method :: string
  resp_iter :: ResponseIter

definition ModelizedStreamResponse_init ::
    "string \<Rightarrow> ClientResponse \<Rightarrow> bool \<Rightarrow> ModelizedStreamResponse" where
  "ModelizedStreamResponse_init m r d = \<lparr>decode = d, rpc_method = m, resp_iter = ResponseIter_init r\<rparr>"

definition ModelizedStreamResponse_close :: "ModelizedStreamResponse \<Rightarrow> ModelizedStreamResponse" where
  "ModelizedStreamResponse_close h =
     h\<lparr>resp_iter := (resp_iter h)\<lparr>resp := resp_close (resp (resp_iter h))\<rparr>\<rparr>"

text \<open>
  \<^verbatim>\<open>ModelizedStreamResponse.__anext__\<close>. The first argument is
  \<^verbatim>\<open>AioClient._modelizeResponseData\<close>, inherited from \<^verbatim>\<open>BaseClient\<close>
  (\<^verbatim>\<open>etcd3/baseclient.py\<close>). \<^verbatim>\<open>.get\<close> on a document that is not a dict raises
  \<^verbatim>\<open>AttributeError\<close>.
\<close>

definition ModelizedStreamResponse_anext ::
    "(string \<Rightarrow> json \<Rightarrow> bool \<Rightarrow> exc + 'r) \<Rightarrow> ModelizedStreamResponse
      \<Rightarrow> (exc + 'r) \<times> ModelizedStreamResponse" where
  "ModelizedStreamResponse_anext modelizeResponseData h =
     (case ResponseIter_next (resp_iter h) of
        (Inl e, it) \<Rightarrow> (Inl e, h\<lparr>resp_iter := it\<rparr>)
      | (Inr data, it) \<Rightarrow>
          (case str_utf8 data of
             Inl e \<Rightarrow> Inl e
           | Inr s \<Rightarrow>
               (case json_loads s of
                  Inl e \<Rightarrow> Inl e
                | Inr (JObj d) \<Rightarrow>
                    if truthy (dict_get d ''error'') then
                      (case dict_get d ''error'' of
                         JObj err \<Rightarrow>
                           Inl (Etcd3APIError (PyJson (dict_get err ''message''))
                                  (dict_get err ''code'') (dict_get err ''http_code'') None)
                       | _ \<Rightarrow> Inl AttributeError)
                    else
                      modelizeResponseData (rpc_method h)
                        (if dict_contains d ''result'' then dict_get d ''result'' else JObj d)
                        (decode h)
                | Inr _ \<Rightarrow> Inl AttributeError),
           h\<lparr>resp_iter := it\<rparr>))"

section \<open>AioClient\<close>

text \<open>
  The keyword arguments of \<^verbatim>\<open>call_rpc\<close> that the function looks at: \<open>None\<close> is a key that
  the caller did not pass. A headers dict is a map from names to values. The request is
  what \<^verbatim>\<open>_post\<close> hands to \<^verbatim>\<open>session.post\<close>. Any other keyword argument goes to
  \<^verbatim>\<open>session.post\<close> as it came and is not in the records; that the caller's own headers
  dict is the object updated is not followed either.
\<close>

record kwargs =
  kw_timeout :: "int option option"
  kw_headers :: "(string \<rightharpoonup> string) option"

record request =
  req_url :: string
  req_json :: json
  req_timeout :: "int option"
  req_headers :: "string \<rightharpoonup> string"

datatype 'r rpc_result =
    Raw ClientResponse
  | Stream ModelizedStreamResponse
  | Modelized 'r

text \<open>
  The client: the attributes that \<^verbatim>\<open>call_rpc\<close> reads, the methods it inherits from
  \<^verbatim>\<open>BaseClient\<close> (\<^verbatim>\<open>_encodeRPCRequest\<close>, \<^verbatim>\<open>_url\<close>, \<^verbatim>\<open>_modelizeResponseData\<close>), the
  \<^verbatim>\<open>post\<close> of its aiohttp session, and the class method \<^verbatim>\<open>_modelizeStreamResponse\<close>,
  which \<^verbatim>\<open>call_rpc\<close> looks up on \<^verbatim>\<open>self\<close>, so that a subclass may replace it.
\<close>

record 'r AioClient =
  timeout :: "int option"
  user_agent :: string
  headers :: "string \<rightharpoonup> string"
  encodeRPCRequest :: "string \<Rightarrow> json \<Rightarrow> exc + json"
  url :: "string \<Rightarrow> string"
  session_post :: "request \<Rightarrow> exc + ClientResponse"
  modelizeResponseData :: "string \<Rightarrow> json \<Rightarrow> bool \<Rightarrow> exc + 'r"
  modelizeStreamResponse :: "string \<Rightarrow> ClientResponse \<Rightarrow> bool \<Rightarrow> exc + ModelizedStreamResponse"

text \<open>\<^verbatim>\<open>AioClient._modelizeStreamResponse\<close> as this file defines it: it builds the handle.\<close>

definition AioClient_modelizeStreamResponse ::
    "string \<Rightarrow> ClientResponse \<Rightarrow> bool \<Rightarrow> exc + ModelizedStreamResponse" where
  "AioClient_modelizeStreamResponse m r d = Inr (ModelizedStreamResponse_init m r d)"

text \<open>\<^verbatim>\<open>d.setdefault(k, v)\<close> and \<^verbatim>\<open>d.update(e)\<close> on dicts.\<close>

definition setdefault :: "('k \<rightharpoonup> 'v) \<Rightarrow> 'k \<Rightarrow> 'v \<Rightarrow> ('k \<rightharpoonup> 'v)" where
  "setdefault d k v = (case d k of None \<Rightarrow> d(k \<mapsto> v) | Some _ \<Rightarrow> d)"

definition update :: "('k \<rightharpoonup> 'v) \<Rightarrow> ('k \<rightharpoonup> 'v) \<Rightarrow> ('k \<rightharpoonup> 'v)" where
  "update d e = d ++ e"

text \<open>
  The three \<^verbatim>\<open>setdefault\<close> lines of \<^verbatim>\<open>call_rpc\<close>: the timeout, then the headers that go
  out with the request.
\<close>

definition request_timeout :: "'r AioClient \<Rightarrow> kwargs \<Rightarrow> int option" where
  "request_timeout self kw = (case kw_timeout kw of None \<Rightarrow> timeout self | Some t \<Rightarrow> t)"

definition request_headers :: "'r AioClient \<Rightarrow> kwargs \<Rightarrow> (string \<rightharpoonup> string)" where
  "request_headers self kw =
     update
       (setdefault (case kw_headers kw of None \<Rightarrow> Map.empty | Some h \<Rightarrow> h)
          ''user_agent'' (user_agent self))
       (headers self)"

text \<open>
  \<^verbatim>\<open>AioClient._raise_for_status\<close>: \<open>Inr ()\<close> is the plain return. \<^verbatim>\<open>except Exception\<close>
  takes every failure of \<^verbatim>\<open>resp.json()\<close>; \<^verbatim>\<open>data.get\<close> on a body that is not a dict
  raises \<^verbatim>\<open>AttributeError\<close>.
\<close>

definition raise_for_status :: "ClientResponse \<Rightarrow> exc + unit" where
  "raise_for_status r =
     (if status r < 400 then Inr ()
      else
        (case resp_json r of
           Inl _ \<Rightarrow> Inl (Etcd3APIError PyStreamReader (JInt 2) (JInt (status r)) (Some r))
         | Inr (JObj data) \<Rightarrow>
             Inl (Etcd3APIError (PyJson (dict_get data ''error'')) (dict_get data ''code'')
                    (JInt (status r)) (Some r))
         | Inr _ \<Rightarrow> Inl AttributeError))"

text \<open>
  \<^verbatim>\<open>except Etcd3Exception\<close>: the base class and the two classes of
  \<^verbatim>\<open>etcd3/errors.py\<close> that this file imports beside it.
\<close>

fun isinstance_Etcd3Exception :: "exc \<Rightarrow> bool" where
  "isinstance_Etcd3Exception (Etcd3Exception _) = True"
| "isinstance_Etcd3Exception (Etcd3APIError _ _ _ _) = True"
| "isinstance_Etcd3Exception (Etcd3StreamError _ _ _) = True"
| "isinstance_Etcd3Exception _ = False"

text \<open>
  The last line of \<^verbatim>\<open>call_rpc\<close>:
  \<^verbatim>\<open>return self._modelizeResponseData(method, await resp.json())\<close>.
\<close>

definition return_modelized :: "'r AioClient \<Rightarrow> string \<Rightarrow> ClientResponse \<Rightarrow> exc + 'r rpc_result" where
  "return_modelized self m r =
     (case resp_json r of
        Inl e \<Rightarrow> Inl e
      | Inr data \<Rightarrow>
          (case modelizeResponseData self m data True of
             Inl e \<Rightarrow> Inl e
           | Inr v \<Rightarrow> Inr (Modelized v)))"

text \<open>
  The request that \<^verbatim>\<open>call_rpc\<close> posts (\<^verbatim>\<open>data or {}\<close>, the optional encoding, the URL and
  the keyword arguments), or the exception of the encoder.
\<close>

definition or_empty :: "json \<Rightarrow> json" where
  "or_empty data = (if truthy data then data else JObj [])"

definition rpc_request :: "'r AioClient \<Rightarrow> string \<Rightarrow> json \<Rightarrow> bool \<Rightarrow> kwargs \<Rightarrow> exc + request" where
  "rpc_request self m data encode kw =
     (case (if encode then encodeRPCRequest self m (or_empty data) else Inr (or_empty data)) of
        Inl e \<Rightarrow> Inl e
      | Inr data' \<Rightarrow>
          Inr \<lparr>req_url = url self m, req_json = or_empty data',
               req_timeout = request_timeout self kw, req_headers = request_headers self kw\<rparr>)"

text \<open>
  \<^verbatim>\<open>AioClient.call_rpc\<close>: the outcome, and the response object as the call leaves it
  (\<open>None\<close> when no response was received).
\<close>

definition call_rpc ::
    "'r AioClient \<Rightarrow> string \<Rightarrow> json \<Rightarrow> bool \<Rightarrow> bool \<Rightarrow> bool \<Rightarrow> kwargs
      \<Rightarrow> (exc + 'r rpc_result) \<times> ClientResponse option" where
  "call_rpc self m data stream encode raw kw =
     (case rpc_request self m data encode kw of
        Inl e \<Rightarrow> (Inl e, None)
      | Inr req \<Rightarrow>
          (case session_post self req of
             Inl e \<Rightarrow> (Inl e, None)
           | Inr r \<Rightarrow>
               (case raise_for_status r of
                  Inl e \<Rightarrow> (Inl e, Some r)
                | Inr _ \<Rightarrow>
                    if raw then (Inr (Raw r), Some r)
                    else if stream then
                      (case modelizeStreamResponse self m r True of
                         Inr h \<Rightarrow> (Inr (Stream h), Some r)
                       | Inl e \<Rightarrow>
                           if isinstance_Etcd3Exception e
                           then (return_modelized self m (resp_close r), Some (resp_close r))
                           else (Inl e, Some r))
                    else (return_modelized self m r, Some r))))"

section \<open>The counter of braces\<close>

text \<open>
  What a byte does to the counter \<^verbatim>\<open>bracket_flag\<close>, and the counter after a string of
  bytes, started at zero. A string is \<^emph>\<open>framed\<close> when the counter, started at zero, is
  zero after its last byte and positive after every byte before: these are the strings
  that one call of \<^verbatim>\<open>next()\<close> returns whole.
\<close>

definition brace_delta :: "char \<Rightarrow> int" where
  "brace_delta c = (if c = CHR ''{'' then 1 else if c = CHR ''}'' then - 1 else 0)"

definition brace_depth :: "bytes \<Rightarrow> int" where
  "brace_depth bs = sum_list (map brace_delta bs)"

definition is_frame :: "bytes \<Rightarrow> bool" where
  "is_frame bs =
     (bs \<noteq> [] \<and> brace_depth bs = 0 \<and> (\<forall>n \<in> {1..<length bs}. 0 < brace_depth (take n bs)))"

text \<open>The counter, started at \<open>d\<close>, stays positive after every byte of the string.\<close>

fun inside :: "int \<Rightarrow> bytes \<Rightarrow> bool" where
  "inside d [] = True"
| "inside d (c # cs) = (0 < d + brace_delta c \<and> inside (d + brace_delta c) cs)"

section \<open>A response to try the functions on\<close>

text \<open>
  A response as \<^verbatim>\<open>session.post\<close> returns it: open, holding its connection, its body
  unread.
\<close>

definition open_response :: "int \<Rightarrow> bytes \<Rightarrow> ClientResponse" where
  "open_response st body =
     \<lparr>status = st, content = body, connection = True, closed = False, releases = 0\<rparr>"


text \<open>
  A client whose collaborators do nothing: the encoder and the modelizer hand their
  argument on, the session answers every request with the response given, and the stream
  handle is the one of this file. No keyword arguments; the body of the 503 of the
  specification.
\<close>

definition example_client :: "ClientResponse \<Rightarrow> json AioClient" where
  "example_client r =
     \<lparr>timeout = None, user_agent = ''etcd3-py'', headers = Map.empty,
      encodeRPCRequest = (\<lambda>m data. Inr data),
      url = (\<lambda>m. ''http://localhost:2379'' @ m),
      session_post = (\<lambda>req. Inr r),
      modelizeResponseData = (\<lambda>m data dec. Inr data),
      modelizeStreamResponse = AioClient_modelizeStreamResponse\<rparr>"

definition no_kwargs :: kwargs where
  "no_kwargs = \<lparr>kw_timeout = None, kw_headers = None\<rparr>"

definition error_body :: bytes where
  "error_body = ''{\"error\":{\"grpc_code\":14,\"http_code\":503,\"message\":\"transport is closing\"}}''"

section \<open>Iterating to the end\<close>

lemma read_loop_consumes:
  "read_loop r b flag cs = (Inr f, it') \<Longrightarrow> length (content (resp it')) < length cs"
proof (induction cs arbitrary: b flag)
  case Nil
  then show ?case by (simp add: Let_def split: if_splits)
next
  case (Cons c cs)
  show ?case
  proof (cases "read_loop r b flag (c # cs) = read_loop r (b @ [c]) (if c = CHR ''{'' then flag + 1 else if c = CHR ''}'' then flag - 1 else flag) cs")
    case True
    with Cons.prems have "length (content (resp it')) < length cs"
      using Cons.IH by simp
    then show ?thesis by simp
  next
    case False
    with Cons.prems show ?thesis
      by (auto simp: Let_def split: if_splits)
  qed
qed

lemma ResponseIter_next_consumes:
  "ResponseIter_next it = (Inr f, it') \<Longrightarrow>
     length (content (resp it')) < length (content (resp it))"
  unfolding ResponseIter_next_def by (rule read_loop_consumes)

text \<open>
  Calling \<^verbatim>\<open>next()\<close> again and again, as \<^verbatim>\<open>async for\<close> does, until the first exception:
  the frames returned, the exception that ended the iteration, and the iterator at the end.
  A call that returns a frame has read at least one byte, so the iteration ends.
\<close>

function frames :: "ResponseIter \<Rightarrow> bytes list \<times> exc \<times> ResponseIter" where
  "frames it =
     (case ResponseIter_next it of
        (Inl e, it') \<Rightarrow> ([], e, it')
      | (Inr f, it') \<Rightarrow> (case frames it' of (fs, e, it'') \<Rightarrow> (f # fs, e, it'')))"
  by pat_completeness auto
termination
  by (relation "measure (\<lambda>it. length (content (resp it)))")
     (auto dest: ResponseIter_next_consumes [OF sym])

declare frames.simps [simp del]




section \<open>Frames and the loop of the tokenizer\<close>

lemma brace_depth_simps [simp]:
  "brace_depth [] = 0"
  "brace_depth (c # cs) = brace_delta c + brace_depth cs"
  "brace_depth (xs @ ys) = brace_depth xs + brace_depth ys"
  by (simp_all add: brace_depth_def)

lemma inside_prefixes:
  "inside d bs \<longleftrightarrow> (\<forall>n \<in> {1..length bs}. 0 < d + brace_depth (take n bs))"
proof (induction bs arbitrary: d)
  case Nil
  then show ?case by simp
next
  case (Cons c cs)
  have "(\<forall>n \<in> {1..length (c # cs)}. 0 < d + brace_depth (take n (c # cs))) \<longleftrightarrow>
        (0 < d + brace_delta c \<and>
         (\<forall>m \<in> {1..length cs}. 0 < d + brace_delta c + brace_depth (take m cs)))"
    (is "?L \<longleftrightarrow> ?R")
  proof
    assume L: ?L
    have "1 \<in> {1..length (c # cs)}" by simp
    with L have "0 < d + brace_depth (take 1 (c # cs))" by blast
    moreover have "0 < d + brace_delta c + brace_depth (take m cs)"
      if "m \<in> {1..length cs}" for m
    proof -
      from that have "Suc m \<in> {1..length (c # cs)}" by simp
      with L have "0 < d + brace_depth (take (Suc m) (c # cs))" by blast
      then show ?thesis by (simp add: add.assoc)
    qed
    ultimately show ?R by simp
  next
    assume R: ?R
    show ?L
    proof
      fix n assume n: "n \<in> {1..length (c # cs)}"
      then obtain m where m: "n = Suc m" by (cases n) auto
      show "0 < d + brace_depth (take n (c # cs))"
      proof (cases m)
        case 0
        with m R show ?thesis by simp
      next
        case (Suc k)
        with m n have "m \<in> {1..length cs}" by simp
        with R have "0 < d + brace_delta c + brace_depth (take m cs)" by blast
        with m show ?thesis by (simp add: add.assoc)
      qed
    qed
  qed
  with Cons.IH [of "d + brace_delta c"] show ?case by simp
qed

lemma read_loop_inside:
  "\<not> closed r \<Longrightarrow> inside d bs \<Longrightarrow>
     read_loop r b d (bs @ rest) = read_loop r (b @ bs) (d + brace_depth bs) rest"
proof (induction bs arbitrary: b d)
  case Nil
  then show ?case by simp
next
  case (Cons c cs)
  from Cons.prems have pos: "0 < d + brace_delta c" and ins: "inside (d + brace_delta c) cs"
    by simp_all
  have "read_loop r b d ((c # cs) @ rest) = read_loop r (b @ [c]) (d + brace_delta c) (cs @ rest)"
    using Cons.prems(1) pos by (auto simp: brace_delta_def Let_def split: if_splits)
  also have "\<dots> = read_loop r ((b @ [c]) @ cs) (d + brace_delta c + brace_depth cs) rest"
    using Cons.IH [OF Cons.prems(1) ins] .
  finally show ?case by (simp add: add.assoc)
qed

lemma read_loop_frame:
  assumes "\<not> closed r" and "is_frame bs"
  shows "read_loop r [] 0 (bs @ rest) =
           (Inr bs, \<lparr>resp = r\<lparr>content := rest\<rparr>, buf = [], bracket_flag = 0\<rparr>)"
proof -
  from assms(2) have ne: "bs \<noteq> []" and tot: "brace_depth bs = 0"
    and pre: "\<forall>n \<in> {1..<length bs}. 0 < brace_depth (take n bs)"
    by (simp_all add: is_frame_def)
  define cs c where "cs = butlast bs" and "c = last bs"
  with ne have bs: "bs = cs @ [c]" by simp
  have "inside 0 cs"
    unfolding inside_prefixes
  proof
    fix n assume "n \<in> {1..length cs}"
    then have "n \<in> {1..<length bs}" and "take n bs = take n cs" by (simp_all add: bs)
    with pre show "0 < 0 + brace_depth (take n cs)" by force
  qed
  then have "read_loop r [] 0 (cs @ (c # rest)) = read_loop r ([] @ cs) (0 + brace_depth cs) (c # rest)"
    using assms(1) by (rule read_loop_inside [rotated])
  moreover have "brace_depth cs + brace_delta c = 0" using tot by (simp add: bs)
  ultimately show ?thesis
    using assms(1) by (simp add: bs brace_delta_def Let_def split: if_splits)
qed

lemma frames_concat_then:
  assumes "\<not> closed r" and "\<forall>bs \<in> set objs. is_frame bs"
  shows "frames (ResponseIter_init (r\<lparr>content := concat objs @ rest\<rparr>)) =
           (case frames (ResponseIter_init (r\<lparr>content := rest\<rparr>)) of
              (fs, e, it) \<Rightarrow> (objs @ fs, e, it))"
  using assms(2)
proof (induction objs)
  case Nil
  show ?case by (simp split: prod.splits)
next
  case (Cons bs objs)
  then have f: "is_frame bs" and rest: "\<forall>bs \<in> set objs. is_frame bs" by simp_all
  have "ResponseIter_next (ResponseIter_init (r\<lparr>content := concat (bs # objs) @ rest\<rparr>)) =
          (Inr bs, ResponseIter_init (r\<lparr>content := concat objs @ rest\<rparr>))"
    using read_loop_frame [of "r\<lparr>content := bs @ concat objs @ rest\<rparr>" bs "concat objs @ rest"]
      assms(1) f
    by (simp add: ResponseIter_next_def ResponseIter_init_def)
  then show ?case
    using Cons.IH [OF rest] by (subst frames.simps) (simp split: prod.splits)
qed

lemma frames_exhausted:
  "\<not> closed r \<Longrightarrow>
     frames (ResponseIter_init (r\<lparr>content := []\<rparr>)) =
       ([], StopAsyncIteration, ResponseIter_init (r\<lparr>content := []\<rparr>))"
  by (subst frames.simps) (simp add: ResponseIter_next_def ResponseIter_init_def)

lemma is_frame_inside:
  "is_frame bs \<longleftrightarrow> bs \<noteq> [] \<and> brace_depth bs = 0 \<and> inside 0 (butlast bs)"
proof (cases "bs = []")
  case True
  then show ?thesis by (simp add: is_frame_def)
next
  case False
  have "(\<forall>n \<in> {1..<length bs}. 0 < brace_depth (take n bs)) \<longleftrightarrow>
        (\<forall>n \<in> {1..length (butlast bs)}. 0 < 0 + brace_depth (take n (butlast bs)))"
  proof -
    have "{1..<length bs} = {1..length (butlast bs)}" using False by auto
    moreover have "take n (butlast bs) = take n bs" if "n \<in> {1..length (butlast bs)}" for n
    proof -
      from that have "n \<le> length (butlast bs)" by simp
      then have "n \<le> length bs - 1" by (simp only: length_butlast)
      moreover have "0 < length bs" using False by simp
      ultimately have "n < length bs" by linarith
      then show ?thesis by (rule take_butlast)
    qed
    ultimately show ?thesis by simp
  qed
  then show ?thesis by (simp add: is_frame_def inside_prefixes False)
qed

section \<open>The bound on the depth is never reached\<close>

text \<open>
  Every call of the scanner that returns a value has consumed input, and with a bound of
  more than twice the length of the input no call runs out of it: \<open>json_loads\<close> never
  gives \<open>RecursionError\<close>. (CPython's own limits, on the depth of the recursion and on
  the digits of an \<^verbatim>\<open>int\<close> literal, are not part of the model.)
\<close>

lemma skip_ws_length: "length (skip_ws s) \<le> length s"
  by (simp add: skip_ws_def length_dropWhile_le)

lemma scanstring_shorter:
  "scanstring s acc = Inr (str, rest) \<Longrightarrow> length rest < length s"
proof (induction s acc rule: scanstring.induct)
  case (1 acc)
  then show ?case by simp
next
  case (2 c cs acc)
  show ?case
  proof (cases "c = CHR 0x22 \<or> c \<noteq> CHR 0x5C")
    case True
    with 2 show ?thesis by (fastforce split: if_splits)
  next
    case False
    then have c: "c \<noteq> CHR 0x22" "c = CHR 0x5C" by simp_all
    with "2.prems" obtain e r where cs: "cs = e # r" by (cases cs) auto
    show ?thesis
    proof (cases "e = CHR ''u''")
      case False
      with "2.prems" c cs obtain ch where ch: "backslash e = Some ch"
        and "scanstring r (acc @ [ch]) = Inr (str, rest)"
        by (auto split: option.splits)
      with "2.IH"(4) [OF c(1) c(2) cs False ch] show ?thesis by (simp add: cs)
    next
      case True
      with "2.prems" c cs obtain u where u: "decode_uXXXX r = Some u"
        by (auto split: option.splits)
      show ?thesis
      proof (cases "55296 \<le> u \<and> u < 56320 \<and> take 2 (drop 4 r) = [CHR 0x5C, CHR ''u'']")
        case False
        with "2.prems" c cs True u have "scanstring (drop 4 r) (acc @ utf8_encode u) = Inr (str, rest)"
          by (auto split: if_splits)
        with "2.IH"(3) [OF c(1) c(2) cs True u False] show ?thesis by (simp add: cs)
      next
        case hi: True
        with "2.prems" c cs True u obtain u2 where u2: "decode_uXXXX (drop 6 r) = Some u2"
          by (auto split: option.splits)
        show ?thesis
        proof (cases "56320 \<le> u2 \<and> u2 < 57344")
          case True
          with "2.prems" c cs \<open>e = CHR ''u''\<close> u hi u2
          have "scanstring (drop 10 r)
                  (acc @ utf8_encode (65536 + (u - 55296) * 1024 + (u2 - 56320))) = Inr (str, rest)"
            by (auto split: if_splits)
          with "2.IH"(1) [OF c(1) c(2) cs \<open>e = CHR ''u''\<close> u hi u2 True]
          show ?thesis by (simp add: cs)
        next
          case False
          with "2.prems" c cs \<open>e = CHR ''u''\<close> u hi u2
          have "scanstring (drop 4 r) (acc @ utf8_encode u) = Inr (str, rest)"
            by (auto split: if_splits)
          with "2.IH"(2) [OF c(1) c(2) cs \<open>e = CHR ''u''\<close> u hi u2 False]
          show ?thesis by (simp add: cs)
        qed
      qed
    qed
  qed
qed

lemma scanstring_no_RecursionError: "scanstring s acc \<noteq> Inl RecursionError"
  by (induction s acc rule: scanstring.induct)
     (auto split: if_splits list.splits option.splits)

lemma match_frac_length: "match_frac s = (f, r) \<Longrightarrow> length r \<le> length s"
  by (auto simp: match_frac_def split: list.splits if_splits
           intro: le_SucI length_dropWhile_le)

lemma match_exp_length: "match_exp s = (e, r) \<Longrightarrow> length r \<le> length s"
  by (auto simp: match_exp_def Let_def split: list.splits if_splits
           intro: le_SucI order_trans [OF length_dropWhile_le])


lemma match_number_shorter:
  assumes "match_number s = Some (v, rest)"
  shows "length rest < length s"
proof -
  define sg where "sg = (case s of [] \<Rightarrow> [] | g # _ \<Rightarrow> if g = CHR ''-'' then [g] else [])"
  define s1 where "s1 = drop (length sg) s"
  from assms obtain d t where s1: "s1 = d # t" and d: "is_digit d"
    unfolding match_number_def sg_def [symmetric] Let_def s1_def [symmetric]
    by (cases s1) (auto split: if_splits)
  define ip where "ip = (if d = CHR ''0'' then [d] else takeWhile is_digit s1)"
  have ip: "0 < length ip" using d by (simp add: ip_def s1)
  obtain frac s3 where f: "match_frac (drop (length ip) s1) = (frac, s3)" by fastforce
  obtain ex s4 where e: "match_exp s3 = (ex, s4)" by fastforce
  from assms have "rest = s4"
    unfolding match_number_def sg_def [symmetric] Let_def s1_def [symmetric]
    using s1 d f e by (auto simp: ip_def split: if_splits)
  moreover have "length s4 \<le> length s3" using e by (rule match_exp_length)
  moreover have "length s3 \<le> length (drop (length ip) s1)" using f by (rule match_frac_length)
  moreover have "length (drop (length ip) s1) < length s1" using ip by (simp add: s1)
  moreover have "length s1 \<le> length s" by (simp add: s1_def)
  ultimately show ?thesis by simp
qed

lemma skip_ws_Cons_shorter: "skip_ws r = d # r' \<Longrightarrow> length r' < length r"
  using skip_ws_length [of r] by simp

lemma drop_shorter: "take k s = t \<Longrightarrow> t \<noteq> [] \<Longrightarrow> length (drop k s) < length s"
  by (cases k; cases s) auto

lemma scan_shorter:
  "(\<forall>s v rest. scan_once n s = Inr (v, rest) \<longrightarrow> length rest < length s) \<and>
   (\<forall>s pairs v rest. JSONObject n s pairs = Inr (v, rest) \<longrightarrow> length rest < length s) \<and>
   (\<forall>s vals v rest. JSONArray n s vals = Inr (v, rest) \<longrightarrow> length rest < length s)"
proof (induction n)
  case 0
  show ?case by simp
next
  case (Suc n)
  then have scl: "\<And>t v rest. scan_once n t = Inr (v, rest) \<Longrightarrow> length rest < length t"
    and obl: "\<And>t ps v rest. JSONObject n t ps = Inr (v, rest) \<Longrightarrow> length rest < length t"
    and arl: "\<And>t vs v rest. JSONArray n t vs = Inr (v, rest) \<Longrightarrow> length rest < length t"
    by blast+
  have A: "length rest < length s" if "scan_once (Suc n) s = Inr (v, rest)" for s v rest
  proof (cases s)
    case Nil
    with that show ?thesis by simp
  next
    case (Cons c r)
    consider (str) "c = CHR 0x22" | (obj) "c \<noteq> CHR 0x22" "c = CHR ''{''"
      | (arr) "c \<noteq> CHR 0x22" "c \<noteq> CHR ''{''" "c = CHR ''[''"
      | (other) "c \<noteq> CHR 0x22" "c \<noteq> CHR ''{''" "c \<noteq> CHR ''[''" by blast
    then show ?thesis
    proof cases
      case str
      with that Cons show ?thesis
        by (auto split: sum.splits prod.splits dest!: scanstring_shorter)
    next
      case obj
      with that Cons show ?thesis
        by (auto split: list.splits if_splits dest!: obl skip_ws_Cons_shorter)
    next
      case arr
      with that Cons show ?thesis
        by (auto split: list.splits if_splits dest!: arl skip_ws_Cons_shorter)
    next
      case other
      have d: "length (drop k s) < length s" if "take k s = t" "t \<noteq> []" for k t and s :: string
        using that by (rule drop_shorter)
      from that have "scan_once (Suc n) (c # r) = Inr (v, rest)" by (simp only: Cons)
      then have "(if take 4 (c # r) = ''null'' then Inr (JNull, drop 4 (c # r))
               else if take 4 (c # r) = ''true'' then Inr (JBool True, drop 4 (c # r))
               else if take 5 (c # r) = ''false'' then Inr (JBool False, drop 5 (c # r))
               else
                 (case match_number (c # r) of
                    Some res \<Rightarrow> Inr res
                  | None \<Rightarrow>
                      if take 3 (c # r) = ''NaN'' then Inr (JFloat ''NaN'', drop 3 (c # r))
                      else if take 8 (c # r) = ''Infinity''
                      then Inr (JFloat ''Infinity'', drop 8 (c # r))
                      else if take 9 (c # r) = ''-Infinity''
                      then Inr (JFloat ''-Infinity'', drop 9 (c # r))
                      else Inl JSONDecodeError)) = Inr (v, rest)"
        using other by (simp only: scan_once.simps list.case if_False)
      then have "length rest < length (c # r)"
        by (auto split: if_splits option.splits dest!: match_number_shorter
              simp del: take_Cons_numeral drop_Cons_numeral length_Cons list.size
              intro: d [where t = "''null''" and s = "c # r"] d [where t = "''true''"]
                d [where t = "''false''"] d [where t = "''NaN''"] d [where t = "''Infinity''"]
                d [where t = "''-Infinity''"])
      then show ?thesis by (simp only: Cons)
    qed
  qed
  have B: "length rest < length s" if "JSONObject (Suc n) s pairs = Inr (v, rest)" for s pairs v rest
    using that
    by (auto split: sum.splits prod.splits list.splits if_splits
          dest!: scanstring_shorter skip_ws_Cons_shorter scl obl
          simp: less_imp_le dest: order_less_le_trans [OF _ skip_ws_length])
  have C: "length rest < length s" if "JSONArray (Suc n) s vals = Inr (v, rest)" for s vals v rest
    using that
    by (auto split: sum.splits prod.splits list.splits if_splits
          dest!: skip_ws_Cons_shorter scl arl
          dest: order_less_le_trans [OF _ skip_ws_length])
  from A B C show ?case by blast
qed


lemma scan_once_shorter: "scan_once n s = Inr (v, rest) \<Longrightarrow> length rest < length s"
  using scan_shorter [of n] by blast

lemma scan_fuel:
  "(2 * length s < n \<longrightarrow> scan_once n s \<noteq> Inl RecursionError) \<and>
   (2 * length s < n \<longrightarrow> JSONObject n s pairs \<noteq> Inl RecursionError) \<and>
   (2 * length s + 1 < n \<longrightarrow> JSONArray n s vals \<noteq> Inl RecursionError)"
proof (induction n arbitrary: s pairs vals)
  case 0
  show ?case by simp
next
  case (Suc n)
  then have sc: "\<And>t. scan_once n t = Inl RecursionError \<Longrightarrow> \<not> 2 * length t < n"
    and ob: "\<And>t ps. JSONObject n t ps = Inl RecursionError \<Longrightarrow> \<not> 2 * length t < n"
    and ar: "\<And>t vs. JSONArray n t vs = Inl RecursionError \<Longrightarrow> \<not> 2 * length t + 1 < n"
    by blast+
  have A: "scan_once (Suc n) s \<noteq> Inl RecursionError" if "2 * length s < Suc n"
  proof (cases s)
    case Nil
    then show ?thesis by simp
  next
    case (Cons c r)
    consider (str) "c = CHR 0x22" | (obj) "c \<noteq> CHR 0x22" "c = CHR ''{''"
      | (arr) "c \<noteq> CHR 0x22" "c \<noteq> CHR ''{''" "c = CHR ''[''"
      | (other) "c \<noteq> CHR 0x22" "c \<noteq> CHR ''{''" "c \<noteq> CHR ''[''" by blast
    then show ?thesis
    proof cases
      case str
      with Cons show ?thesis
        using scanstring_no_RecursionError [of r "[]"]
        by (auto split: sum.splits prod.splits)
    next
      case obj
      with that Cons show ?thesis
        by (auto split: list.splits if_splits dest!: ob skip_ws_Cons_shorter)
    next
      case arr
      with that Cons show ?thesis
        using skip_ws_length [of r]
        by (auto split: list.splits if_splits dest!: ar)
    next
      case other
      with Cons show ?thesis
        by (auto split: option.splits if_splits)
    qed
  qed
  have B: "JSONObject (Suc n) s pairs \<noteq> Inl RecursionError" if "2 * length s < Suc n"
  proof
    assume "JSONObject (Suc n) s pairs = Inl RecursionError"
    then show False
      using that scanstring_no_RecursionError [of s "[]"]
      apply (simp split: sum.splits prod.splits list.splits if_splits)
      apply (auto dest!: scanstring_shorter skip_ws_Cons_shorter ob sc)
      subgoal for s1 s2
        using skip_ws_length [of s2] by linarith
      subgoal for s1 s2 v s3 s4 s5
        using skip_ws_length [of s2] scan_once_shorter [of n "skip_ws s2" v s3] by linarith
      done
  qed
  have C: "JSONArray (Suc n) s vals \<noteq> Inl RecursionError" if "2 * length s + 1 < Suc n"
  proof
    assume "JSONArray (Suc n) s vals = Inl RecursionError"
    then show False
      using that
      apply (simp split: sum.splits prod.splits list.splits if_splits)
      apply (auto dest!: skip_ws_Cons_shorter ar sc)
      subgoal for v s1 s2
        using skip_ws_length [of s2] scan_once_shorter [of n s v s1] by linarith
      done
  qed
  from A B C show ?case by blast
qed


lemma json_loads_no_RecursionError: "json_loads s \<noteq> Inl RecursionError"
proof -
  have "2 * length (skip_ws s) < Suc (2 * length s)"
    using skip_ws_length [of s] by simp
  with scan_fuel [of "skip_ws s" "Suc (2 * length s)"]
  have "scan_once (Suc (2 * length s)) (skip_ws s) \<noteq> Inl RecursionError" by blast
  then show ?thesis
    by (auto simp: json_loads_def simp del: scan_once.simps split: sum.splits prod.splits if_splits)
qed

section \<open>What the parser does with one byte\<close>

lemma str_utf8_single:
  "str_utf8 [b] = (if (of_char b :: nat) < 128 then Inr [b] else Inl UnicodeDecodeError)"
  by (simp add: str_utf8_def)

lemma match_number_single:
  "match_number [b] = (if is_digit b then Some (JInt (of_char b - 48), []) else None)"
  by (auto simp: match_number_def match_frac_def match_exp_def digits_value_def is_digit_def Let_def)

lemma json_loads_single:
  "json_loads [b] = (if is_digit b then Inr (JInt (of_char b - 48)) else Inl JSONDecodeError)"
proof (cases "is_digit b")
  case True
  then have "\<not> is_ws b" "b \<noteq> CHR 0x22" "b \<noteq> CHR ''{''" "b \<noteq> CHR ''[''"
    by (auto simp: is_digit_def is_ws_def)
  with True show ?thesis
    by (simp add: json_loads_def skip_ws_def match_number_single numeral_3_eq_3)
next
  case False
  then show ?thesis
    by (auto simp: json_loads_def skip_ws_def match_number_single numeral_3_eq_3)
qed

section \<open>The tokenizer\<close>

text \<open>
  Claim C5, as amended. When the body is the concatenation of \<open>N\<close> framed strings (the
  counter of braces is zero after the last byte of each and positive after every byte
  before), calling \<^verbatim>\<open>next()\<close> until it raises returns exactly these \<open>N\<close> strings, in
  order, and then raises \<^verbatim>\<open>StopAsyncIteration\<close> with an empty buffer. The two objects of
  the witness are framed; the second has braces inside a string literal, nested as the
  counter needs them.
\<close>

theorem frames_of_framed_objects:
  assumes "\<not> closed r" and "\<forall>bs \<in> set objs. is_frame bs"
  shows "frames (ResponseIter_init (r\<lparr>content := concat objs\<rparr>)) =
           (objs, StopAsyncIteration, ResponseIter_init (r\<lparr>content := []\<rparr>))"
  using frames_concat_then [OF assms, of "[]"] frames_exhausted [OF assms(1)] by simp

theorem frames_of_framed_objects_witness:
  "\<not> closed (open_response 200 []) \<and>
   is_frame ''{\"result\":{\"x\":1}}'' \<and> is_frame ''{\"a\":\"{}\"}'' \<and>
   frames (ResponseIter_init
      ((open_response 200 [])\<lparr>content := concat [''{\"result\":{\"x\":1}}'', ''{\"a\":\"{}\"}'']\<rparr>)) =
     ([''{\"result\":{\"x\":1}}'', ''{\"a\":\"{}\"}''], StopAsyncIteration,
      ResponseIter_init ((open_response 200 [])\<lparr>content := []\<rparr>))"
proof -
  have c: "\<not> closed (open_response 200 [])" by (simp add: open_response_def)
  have f1: "is_frame ''{\"result\":{\"x\":1}}''" by (simp add: is_frame_inside brace_delta_def)
  have f2: "is_frame ''{\"a\":\"{}\"}''" by (simp add: is_frame_inside brace_delta_def)
  have "\<forall>bs \<in> set [''{\"result\":{\"x\":1}}'', ''{\"a\":\"{}\"}'']. is_frame bs"
    using f1 f2 by simp
  from frames_of_framed_objects [OF c this] c f1 f2 show ?thesis by blast
qed

text \<open>
  Claim C5 as it is stated fails: \<^verbatim>\<open>{"a":"}{"}\<close> is one JSON object with two opening and
  two closing braces, and the tokenizer returns two frames for it, \<^verbatim>\<open>{"a":"}\<close> and
  \<^verbatim>\<open>{"}\<close>, the first of which is not JSON.
\<close>

theorem balanced_object_split_counterexample:
  "json_loads ''{\"a\":\"}{\"}'' = Inr (JObj [(''a'', JStr ''}{'')]) \<and>
   count_list ''{\"a\":\"}{\"}'' CHR ''{'' = count_list ''{\"a\":\"}{\"}'' CHR ''}'' \<and>
   frames (ResponseIter_init (open_response 200 (concat [''{\"a\":\"}{\"}'']))) =
     ([''{\"a\":\"}'', ''{\"}''], StopAsyncIteration, ResponseIter_init (open_response 200 [])) \<and>
   json_loads ''{\"a\":\"}'' = Inl JSONDecodeError"
  by code_simp

text \<open>
  Claim C7. Let the response be open and let the unread bytes keep the counter positive to
  the end of the body (the body ends inside an object, or nothing is left to read). Then
  \<^verbatim>\<open>next()\<close> reads them all and, at the empty read, raises \<^verbatim>\<open>Etcd3StreamError\<close> with the
  whole buffer when the buffer is not empty, and \<^verbatim>\<open>StopAsyncIteration\<close> when it is; it
  returns no frame, so the iteration gives no frame and ends with that one exception.
\<close>

theorem next_at_end_of_source:
  assumes "\<not> closed (resp it)"
    and "\<forall>n \<in> {1..length (content (resp it))}.
           0 < bracket_flag it + brace_depth (take n (content (resp it)))"
  shows "ResponseIter_next it =
           (if buf it @ content (resp it) = [] then Inl StopAsyncIteration
            else Inl (Etcd3StreamError ''Stream decode error'' (buf it @ content (resp it))
                        ((resp it)\<lparr>content := []\<rparr>)),
            \<lparr>resp = (resp it)\<lparr>content := []\<rparr>, buf = buf it @ content (resp it),
              bracket_flag = bracket_flag it + brace_depth (content (resp it))\<rparr>)
         \<and> frames it =
           ([],
            if buf it @ content (resp it) = [] then StopAsyncIteration
            else Etcd3StreamError ''Stream decode error'' (buf it @ content (resp it))
                   ((resp it)\<lparr>content := []\<rparr>),
            \<lparr>resp = (resp it)\<lparr>content := []\<rparr>, buf = buf it @ content (resp it),
              bracket_flag = bracket_flag it + brace_depth (content (resp it))\<rparr>)"
proof -
  from assms(2) have "inside (bracket_flag it) (content (resp it))"
    by (simp add: inside_prefixes)
  from read_loop_inside [OF assms(1) this, of "buf it" "[]"] assms(1)
  have n: "ResponseIter_next it =
           (if buf it @ content (resp it) = [] then Inl StopAsyncIteration
            else Inl (Etcd3StreamError ''Stream decode error'' (buf it @ content (resp it))
                        ((resp it)\<lparr>content := []\<rparr>)),
            \<lparr>resp = (resp it)\<lparr>content := []\<rparr>, buf = buf it @ content (resp it),
              bracket_flag = bracket_flag it + brace_depth (content (resp it))\<rparr>)"
    by (simp add: ResponseIter_next_def Let_def)
  have "frames it =
           ([],
            if buf it @ content (resp it) = [] then StopAsyncIteration
            else Etcd3StreamError ''Stream decode error'' (buf it @ content (resp it))
                   ((resp it)\<lparr>content := []\<rparr>),
            \<lparr>resp = (resp it)\<lparr>content := []\<rparr>, buf = buf it @ content (resp it),
              bracket_flag = bracket_flag it + brace_depth (content (resp it))\<rparr>)"
    by (subst frames.simps) (simp add: n)
  with n show ?thesis by (rule conjI)
qed

theorem next_at_end_of_source_witness:
  "\<not> closed (resp (ResponseIter_init (open_response 200 ''{\"a\":1''))) \<and>
   ResponseIter_next (ResponseIter_init (open_response 200 ''{\"a\":1'')) =
     (Inl (Etcd3StreamError ''Stream decode error'' ''{\"a\":1'' (open_response 200 [])),
      \<lparr>resp = open_response 200 [], buf = ''{\"a\":1'', bracket_flag = 1\<rparr>) \<and>
   ResponseIter_next \<lparr>resp = open_response 200 [], buf = ''{\"a\":1'', bracket_flag = 1\<rparr> =
     (Inl (Etcd3StreamError ''Stream decode error'' ''{\"a\":1'' (open_response 200 [])),
      \<lparr>resp = open_response 200 [], buf = ''{\"a\":1'', bracket_flag = 1\<rparr>) \<and>
   ResponseIter_next (ResponseIter_init (open_response 200 [])) =
     (Inl StopAsyncIteration, ResponseIter_init (open_response 200 []))"
proof -
  let ?a = "ResponseIter_init (open_response 200 ''{\"a\":1'')"
  let ?b = "\<lparr>resp = open_response 200 [], buf = ''{\"a\":1'', bracket_flag = 1\<rparr>"
  let ?c = "ResponseIter_init (open_response 200 [])"
  have a: "\<not> closed (resp ?a)" "\<not> closed (resp ?b)" "\<not> closed (resp ?c)"
    by (simp_all add: ResponseIter_init_def open_response_def)
  have ia: "inside (bracket_flag ?a) (content (resp ?a))"
    by (simp add: ResponseIter_init_def open_response_def brace_delta_def)
  have ib: "inside (bracket_flag ?b) (content (resp ?b))"
    by (simp add: open_response_def)
  have ic: "inside (bracket_flag ?c) (content (resp ?c))"
    by (simp add: ResponseIter_init_def open_response_def)
  show ?thesis
    using next_at_end_of_source [OF a(1) ia [unfolded inside_prefixes]]
      next_at_end_of_source [OF a(2) ib [unfolded inside_prefixes]]
      next_at_end_of_source [OF a(3) ic [unfolded inside_prefixes]]
    by (simp add: ResponseIter_init_def open_response_def brace_delta_def)
qed

text \<open>
  Claim C8. When the byte that \<^verbatim>\<open>next()\<close> reads takes the counter below zero (a \<^verbatim>\<open>}\<close>
  read with the counter at zero, as the first byte of a fresh iterator is), the call
  raises \<^verbatim>\<open>Etcd3StreamError\<close> with the buffer up to that byte; the rest of the body is
  left unread, and the call returns no frame.
\<close>

theorem next_on_negative_counter:
  assumes "\<not> closed (resp it)" and "content (resp it) = c # rest"
    and "bracket_flag it + brace_delta c < 0"
  shows "ResponseIter_next it =
           (Inl (Etcd3StreamError ''Stream decode error'' (buf it @ [c])
                   ((resp it)\<lparr>content := rest\<rparr>)),
            \<lparr>resp = (resp it)\<lparr>content := rest\<rparr>, buf = buf it @ [c],
              bracket_flag = bracket_flag it + brace_delta c\<rparr>)
         \<and> frames it =
           ([], Etcd3StreamError ''Stream decode error'' (buf it @ [c])
                  ((resp it)\<lparr>content := rest\<rparr>),
            \<lparr>resp = (resp it)\<lparr>content := rest\<rparr>, buf = buf it @ [c],
              bracket_flag = bracket_flag it + brace_delta c\<rparr>)"
proof -
  have n: "ResponseIter_next it =
           (Inl (Etcd3StreamError ''Stream decode error'' (buf it @ [c])
                   ((resp it)\<lparr>content := rest\<rparr>)),
            \<lparr>resp = (resp it)\<lparr>content := rest\<rparr>, buf = buf it @ [c],
              bracket_flag = bracket_flag it + brace_delta c\<rparr>)"
    using assms by (auto simp: ResponseIter_next_def brace_delta_def Let_def split: if_splits)
  then show ?thesis by (subst frames.simps) simp
qed

theorem next_on_negative_counter_witness:
  "\<not> closed (resp (ResponseIter_init (open_response 200 ''}{\"a\":1}''))) \<and>
   content (resp (ResponseIter_init (open_response 200 ''}{\"a\":1}''))) = CHR ''}'' # ''{\"a\":1}'' \<and>
   bracket_flag (ResponseIter_init (open_response 200 ''}{\"a\":1}'')) + brace_delta CHR ''}'' < 0 \<and>
   ResponseIter_next (ResponseIter_init (open_response 200 ''}{\"a\":1}'')) =
     (Inl (Etcd3StreamError ''Stream decode error'' ''}'' (open_response 200 ''{\"a\":1}'')),
      \<lparr>resp = open_response 200 ''{\"a\":1}'', buf = ''}'', bracket_flag = - 1\<rparr>)"
proof -
  let ?it = "ResponseIter_init (open_response 200 ''}{\"a\":1}'')"
  have a: "\<not> closed (resp ?it)" by (simp add: ResponseIter_init_def open_response_def)
  have b: "content (resp ?it) = CHR ''}'' # ''{\"a\":1}''"
    by (simp add: ResponseIter_init_def open_response_def)
  have c: "bracket_flag ?it + brace_delta CHR ''}'' < 0"
    by (simp add: ResponseIter_init_def brace_delta_def)
  from next_on_negative_counter [OF a b c] a b c show ?thesis
    by (simp add: ResponseIter_init_def open_response_def brace_delta_def)
qed

section \<open>The stream handle\<close>











text \<open>
  Claim C10, as amended. With the counter at zero and the buffer empty, a byte that is no
  brace comes back from \<^verbatim>\<open>next()\<close> at once as a frame of one byte. \<^verbatim>\<open>__anext__\<close> then
  raises, and never \<^verbatim>\<open>Etcd3StreamError\<close>: \<^verbatim>\<open>UnicodeDecodeError\<close> for a byte from 128 on,
  \<^verbatim>\<open>JSONDecodeError\<close> for any other byte that is not a digit, and for a digit, which
  \<^verbatim>\<open>json.loads\<close> parses as an \<^verbatim>\<open>int\<close>, the \<^verbatim>\<open>AttributeError\<close> of \<^verbatim>\<open>data.get\<close>.
\<close>

theorem next_single_byte:
  assumes "\<not> closed (resp (resp_iter h))"
    and "buf (resp_iter h) = []" and "bracket_flag (resp_iter h) = 0"
    and "content (resp (resp_iter h)) = b # rest"
    and "b \<noteq> CHR ''{''" and "b \<noteq> CHR ''}''"
  shows "ResponseIter_next (resp_iter h) =
           (Inr [b], \<lparr>resp = (resp (resp_iter h))\<lparr>content := rest\<rparr>, buf = [], bracket_flag = 0\<rparr>)
         \<and> ModelizedStreamResponse_anext mz h =
           (Inl (if 128 \<le> (of_char b :: nat) then UnicodeDecodeError
                 else if is_digit b then AttributeError
                 else JSONDecodeError),
            h\<lparr>resp_iter :=
                \<lparr>resp = (resp (resp_iter h))\<lparr>content := rest\<rparr>, buf = [], bracket_flag = 0\<rparr>\<rparr>)"
proof -
  have n: "ResponseIter_next (resp_iter h) =
           (Inr [b], \<lparr>resp = (resp (resp_iter h))\<lparr>content := rest\<rparr>, buf = [], bracket_flag = 0\<rparr>)"
    using assms by (simp add: ResponseIter_next_def Let_def)
  then show ?thesis
    by (simp add: ModelizedStreamResponse_anext_def str_utf8_single json_loads_single)
qed

theorem next_single_byte_witness:
  "ResponseIter_next (ResponseIter_init (open_response 200 (CHR 0x0A # ''{\"a\":1}''))) =
     (Inr [CHR 0x0A], ResponseIter_init (open_response 200 ''{\"a\":1}'')) \<and>
   ModelizedStreamResponse_anext (\<lambda>m data dec. Inr data)
     (ModelizedStreamResponse_init ''/v3alpha/watch'' (open_response 200 (CHR 0x0A # ''{\"a\":1}'')) True) =
     (Inl JSONDecodeError,
      ModelizedStreamResponse_init ''/v3alpha/watch'' (open_response 200 ''{\"a\":1}'') True)"
proof -
  let ?h = "ModelizedStreamResponse_init ''/v3alpha/watch'' (open_response 200 (CHR 0x0A # ''{\"a\":1}'')) True"
  have a: "\<not> closed (resp (resp_iter ?h))" "buf (resp_iter ?h) = []" "bracket_flag (resp_iter ?h) = 0"
    "content (resp (resp_iter ?h)) = CHR 0x0A # ''{\"a\":1}''"
    by (simp_all add: ModelizedStreamResponse_init_def ResponseIter_init_def open_response_def)
  have b: "CHR 0x0A \<noteq> CHR ''{''" "CHR 0x0A \<noteq> CHR ''}''" by simp_all
  from next_single_byte [OF a b, of "\<lambda>m data dec. Inr data"]
  show ?thesis
    by (simp add: ModelizedStreamResponse_init_def ResponseIter_init_def open_response_def is_digit_def)
qed

text \<open>
  Claim C10 as it is stated fails at a digit: the frame \<^verbatim>\<open>7\<close> is a JSON document, the parse
  succeeds, and the exception comes from \<^verbatim>\<open>data.get('error')\<close> on an \<^verbatim>\<open>int\<close>.
\<close>

theorem digit_frame_counterexample:
  "ResponseIter_next (ResponseIter_init (open_response 200 ''7'')) =
     (Inr ''7'', ResponseIter_init (open_response 200 [])) \<and>
   str_utf8 ''7'' = Inr ''7'' \<and>
   json_loads ''7'' = Inr (JInt 7) \<and>
   ModelizedStreamResponse_anext (\<lambda>m data dec. Inr data)
     (ModelizedStreamResponse_init ''/v3alpha/watch'' (open_response 200 ''7'') True) =
     (Inl AttributeError, ModelizedStreamResponse_init ''/v3alpha/watch'' (open_response 200 []) True)"
  by code_simp

section \<open>The client\<close>

lemma loads_error_body:
  "json_loads error_body =
     Inr (JObj [(''error'', JObj [(''grpc_code'', JInt 14), (''http_code'', JInt 503),
        (''message'', JStr ''transport is closing'')])])"
  unfolding error_body_def by code_simp

lemma resp_json_error_body:
  "resp_json (open_response 503 error_body) =
     Inr (JObj [(''error'', JObj [(''grpc_code'', JInt 14), (''http_code'', JInt 503),
        (''message'', JStr ''transport is closing'')])])"
proof -
  have "strip error_body = error_body"
    by (simp add: strip_def error_body_def is_space_def is_ws_def)
  moreover have "str_utf8 error_body = Inr error_body"
    by (simp add: str_utf8_def error_body_def)
  moreover have "error_body \<noteq> []" by (simp add: error_body_def)
  ultimately show ?thesis
    by (simp add: resp_json_def open_response_def loads_error_body)
qed

lemma call_rpc_raises_for_status:
  assumes "rpc_request self m data encode kw = Inr req"
    and "session_post self req = Inr r"
    and "400 \<le> status r"
    and "resp_json r = Inr (JObj d)"
  shows "call_rpc self m data stream encode raw kw =
           (Inl (Etcd3APIError (PyJson (dict_get d ''error'')) (dict_get d ''code'')
                   (JInt (status r)) (Some r)),
            Some r)"
  using assms by (simp add: call_rpc_def raise_for_status_def)

lemma example_request:
  "rpc_request (example_client r) m JNull True no_kwargs =
     Inr \<lparr>req_url = ''http://localhost:2379'' @ m, req_json = JObj [], req_timeout = None,
          req_headers = [''user_agent'' \<mapsto> ''etcd3-py'']\<rparr>"
  by (simp add: rpc_request_def example_client_def no_kwargs_def or_empty_def
        request_timeout_def request_headers_def setdefault_def update_def)



text \<open>
  Claim C1, as amended. When the response has a status of 400 or more and a body that is a
  JSON object, \<^verbatim>\<open>call_rpc\<close> raises \<^verbatim>\<open>Etcd3APIError\<close> with the status of the response, with
  the member \<^verbatim>\<open>error\<close> of the body as its first argument and the member \<^verbatim>\<open>code\<close> of the body
  as its code, whatever \<^verbatim>\<open>stream\<close> and \<^verbatim>\<open>raw\<close> are. For the 503 of the claim the first
  argument is the whole dict under \<^verbatim>\<open>error\<close> and the code is \<^verbatim>\<open>None\<close>, the body having no
  \<^verbatim>\<open>code\<close> of its own.
\<close>

theorem call_rpc_http_error:
  assumes "rpc_request self m data encode kw = Inr req"
    and "session_post self req = Inr r"
    and "400 \<le> status r"
    and "resp_json r = Inr (JObj d)"
  shows "call_rpc self m data stream encode raw kw =
           (Inl (Etcd3APIError (PyJson (dict_get d ''error'')) (dict_get d ''code'')
                   (JInt (status r)) (Some r)),
            Some r)"
  using assms by (rule call_rpc_raises_for_status)

theorem call_rpc_http_error_witness:
  "400 \<le> status (open_response 503 error_body) \<and>
   call_rpc (example_client (open_response 503 error_body)) ''/v3alpha/kv/range'' JNull False True False
       no_kwargs =
     (Inl (Etcd3APIError
             (PyJson (JObj [(''grpc_code'', JInt 14), (''http_code'', JInt 503),
                (''message'', JStr ''transport is closing'')]))
             JNull (JInt 503) (Some (open_response 503 error_body))),
      Some (open_response 503 error_body))"
proof -
  let ?r = "open_response 503 error_body"
  have p: "session_post (example_client ?r) req = Inr ?r" for req
    by (simp add: example_client_def)
  have s: "400 \<le> status ?r" by (simp add: open_response_def)
  from call_rpc_http_error [OF example_request p s resp_json_error_body] s
  show ?thesis by (simp add: dict_get_def open_response_def)
qed

text \<open>
  Claim C1 as it is stated fails: the exception for this response has neither the code 14
  nor the message \<^verbatim>\<open>transport is closing\<close>; both stay inside its first argument.
\<close>

theorem nested_error_body_counterexample:
  "fst (call_rpc (example_client (open_response 503 error_body)) ''/v3alpha/kv/range'' JNull False
          True False no_kwargs) =
     Inl (Etcd3APIError
            (PyJson (JObj [(''grpc_code'', JInt 14), (''http_code'', JInt 503),
               (''message'', JStr ''transport is closing'')]))
            JNull (JInt 503) (Some (open_response 503 error_body))) \<and>
   fst (call_rpc (example_client (open_response 503 error_body)) ''/v3alpha/kv/range'' JNull False
          True False no_kwargs) \<noteq>
     Inl (Etcd3APIError (PyJson (JStr ''transport is closing'')) (JInt 14) (JInt 503)
            (Some (open_response 503 error_body)))"
proof -
  let ?r = "open_response 503 error_body"
  have p: "session_post (example_client ?r) req = Inr ?r" for req
    by (simp add: example_client_def)
  have s: "400 \<le> status ?r" by (simp add: open_response_def)
  from call_rpc_raises_for_status [OF example_request p s resp_json_error_body]
  show ?thesis by (simp add: dict_get_def open_response_def)
qed

text \<open>
  Claim C3, as amended. When the caller passes headers, the headers of the request are the
  caller's, with \<^verbatim>\<open>user_agent\<close> set from the client if the caller gave none, updated with the
  client's headers: a name that the client's headers have gets the client's value, and
  every other name keeps the caller's.
\<close>

theorem call_rpc_request_headers:
  assumes "kw_headers kw = Some h"
    and "rpc_request self m data encode kw = Inr req"
  shows "req_headers req k =
           (case headers self k of
              Some v \<Rightarrow> Some v
            | None \<Rightarrow>
                if k = ''user_agent'' then (case h k of Some v \<Rightarrow> Some v | None \<Rightarrow> Some (user_agent self))
                else h k)"
  using assms
  by (auto simp: rpc_request_def request_headers_def setdefault_def update_def map_add_def
           split: sum.splits if_splits option.splits)

theorem call_rpc_request_headers_witness:
  "rpc_request ((example_client (open_response 200 []))\<lparr>headers := [''authorization'' \<mapsto> ''client-token'']\<rparr>)
       ''/v3alpha/kv/range'' JNull True
       \<lparr>kw_timeout = None, kw_headers = Some [''authorization'' \<mapsto> ''caller-token'', ''x-trace'' \<mapsto> ''1'']\<rparr> =
     Inr \<lparr>req_url = ''http://localhost:2379/v3alpha/kv/range'', req_json = JObj [], req_timeout = None,
          req_headers = [''authorization'' \<mapsto> ''client-token'', ''x-trace'' \<mapsto> ''1'',
                         ''user_agent'' \<mapsto> ''etcd3-py'']\<rparr> \<and>
   [''authorization'' \<mapsto> ''client-token'', ''x-trace'' \<mapsto> ''1'', ''user_agent'' \<mapsto> ''etcd3-py'']
       ''x-trace'' = Some ''1''"
proof -
  let ?self = "(example_client (open_response 200 []))\<lparr>headers := [''authorization'' \<mapsto> ''client-token'']\<rparr>"
  let ?h = "[''authorization'' \<mapsto> ''caller-token'', ''x-trace'' \<mapsto> ''1'']"
  let ?kw = "\<lparr>kw_timeout = None, kw_headers = Some ?h\<rparr>"
  let ?req = "\<lparr>req_url = ''http://localhost:2379/v3alpha/kv/range'', req_json = JObj [], req_timeout = None,
          req_headers = [''authorization'' \<mapsto> ''client-token'', ''x-trace'' \<mapsto> ''1'',
                         ''user_agent'' \<mapsto> ''etcd3-py'']\<rparr>"
  have a: "kw_headers ?kw = Some ?h" by simp
  have b: "rpc_request ?self ''/v3alpha/kv/range'' JNull True ?kw = Inr ?req"
    by (auto simp: rpc_request_def example_client_def or_empty_def request_timeout_def
        request_headers_def setdefault_def update_def map_add_def fun_eq_iff)
  from call_rpc_request_headers [OF a b, of "''x-trace''"] b show ?thesis
    by (simp add: example_client_def)
qed

text \<open>
  Claim C3 as it is stated fails: \<^verbatim>\<open>.update(self.headers)\<close> runs last, so the client's
  \<^verbatim>\<open>authorization\<close> replaces the one that the caller passed.
\<close>

theorem caller_header_replaced_counterexample:
  "(case rpc_request ((example_client (open_response 200 []))\<lparr>headers := [''authorization'' \<mapsto> ''client-token'']\<rparr>)
       ''/v3alpha/kv/range'' JNull True
       \<lparr>kw_timeout = None, kw_headers = Some [''authorization'' \<mapsto> ''caller-token'']\<rparr> of
      Inl e \<Rightarrow> None
    | Inr req \<Rightarrow> req_headers req ''authorization'') = Some ''client-token'' \<and>
   Some ''client-token'' \<noteq> Some ''caller-token''"
  by (simp add: rpc_request_def example_client_def or_empty_def request_timeout_def
        request_headers_def setdefault_def update_def)

text \<open>
  Claim C9. \<^verbatim>\<open>ModelizedStreamResponse.close\<close> hands every call on to \<^verbatim>\<open>resp.close()\<close>, which
  closes the connection only when the response still holds one. So, for a handle in any
  state (before the first read, in the middle of the iteration, after it), a second
  \<^verbatim>\<open>close()\<close> changes nothing, and the closes together close the connection once when the
  response held it and never otherwise. Nothing in the two functions raises.
\<close>

theorem close_twice:
  "ModelizedStreamResponse_close (ModelizedStreamResponse_close h) = ModelizedStreamResponse_close h \<and>
   releases (resp (resp_iter (ModelizedStreamResponse_close h))) =
     (if connection (resp (resp_iter h)) then Suc (releases (resp (resp_iter h)))
      else releases (resp (resp_iter h))) \<and>
   closed (resp (resp_iter (ModelizedStreamResponse_close h))) \<and>
   \<not> connection (resp (resp_iter (ModelizedStreamResponse_close h)))"
  by (simp add: ModelizedStreamResponse_close_def resp_close_def)


end
